theory Spec2Isabelle
  imports Main "HOL-Library.Word" "HOL-Library.Signed_Division"
begin

section \<open>Traffic statistics and client registry of the NAT router display\<close>

text \<open>
  A shallow embedding of \<^verbatim>\<open>components/tft_display/traffic_stats.c\<close> and of the
  two structures declared in \<^verbatim>\<open>traffic_stats.h\<close>. The file-level static variables
  of the C module are the fields of one state record; every entry point takes the state
  and returns the new one. What FreeRTOS, the timer service and the network stack hand
  back to a call (whether the semaphore was taken, the microsecond clock, the byte
  counters, the station list) is an argument of the modelled function.
\<close>

subsection \<open>Data model\<close>

type_synonym u8 = "8 word"
type_synonym u32 = "32 word"
type_synonym u64 = "64 word"

text \<open>\<^verbatim>\<open>uint8_t mac[6]\<close>: six bytes; \<^verbatim>\<open>memcmp(a, b, 6) == 0\<close> is equality.\<close>

type_synonym mac_addr = "u8 \<times> u8 \<times> u8 \<times> u8 \<times> u8 \<times> u8"

record traffic_stats_t =
  rx_bytes :: u64
  tx_bytes :: u64
  rx_speed :: u32
  tx_speed :: u32
  peak_rx_speed :: u32
  peak_tx_speed :: u32
  last_update :: u32

text \<open>
  The per-client counters of \<^verbatim>\<open>client_stats_t\<close> are called \<^verbatim>\<open>rx_bytes\<close> and
  \<^verbatim>\<open>tx_bytes\<close> in C as well; they carry a prefix here to keep them apart from the
  fields of \<^typ>\<open>traffic_stats_t\<close>.
\<close>

record client_stats_t =
  mac :: mac_addr
  ip :: u32
  cl_rx_bytes :: u64
  cl_tx_bytes :: u64
  last_active :: u32
  active :: bool

definition MAX_CLIENTS :: nat where
  "MAX_CLIENTS = 16"

text \<open>The value \<^verbatim>\<open>memset(.., 0, ..)\<close> and \<^verbatim>\<open>= {0}\<close> leave in each structure.\<close>

definition zero_stats :: traffic_stats_t where
  "zero_stats = \<lparr>rx_bytes = 0, tx_bytes = 0, rx_speed = 0, tx_speed = 0,
     peak_rx_speed = 0, peak_tx_speed = 0, last_update = 0\<rparr>"

definition zero_mac :: mac_addr where
  "zero_mac = (0, 0, 0, 0, 0, 0)"

definition zero_client :: client_stats_t where
  "zero_client = \<lparr>mac = zero_mac, ip = 0, cl_rx_bytes = 0, cl_tx_bytes = 0,
     last_active = 0, active = False\<rparr>"

text \<open>
  The static variables of the module. The two handles are modelled by whether the
  variable is non-NULL; \<^verbatim>\<open>g_clients\<close> is the array of \<^verbatim>\<open>MAX_CLIENTS\<close> records.
\<close>

record stats_state =
  g_stats :: traffic_stats_t
  g_clients :: "client_stats_t list"
  g_start_time :: u32
  g_stats_mutex :: bool
  g_update_timer :: bool
  g_initialized :: bool
  prev_rx_bytes :: u64
  prev_tx_bytes :: u64
  prev_update_time :: u32

text \<open>The state the C initialisers give the module when the program is loaded.\<close>

definition boot_state :: stats_state where
  "boot_state = \<lparr>g_stats = zero_stats, g_clients = replicate MAX_CLIENTS zero_client,
     g_start_time = 0, g_stats_mutex = False, g_update_timer = False,
     g_initialized = False, prev_rx_bytes = 0, prev_tx_bytes = 0, prev_update_time = 0\<rparr>"

subsection \<open>What the environment hands to a call\<close>

text \<open>
  \<^verbatim>\<open>esp_err_t\<close> is an \<^verbatim>\<open>int\<close>; \<^verbatim>\<open>ESP_OK\<close> is 0 and \<^verbatim>\<open>ESP_ERR_NO_MEM\<close> is 0x101.
\<close>

type_synonym esp_err_t = int

definition ESP_OK :: esp_err_t where
  "ESP_OK = 0"

definition ESP_ERR_NO_MEM :: esp_err_t where
  "ESP_ERR_NO_MEM = 257"

text \<open>
  The byte counters a tick reads. Which source is compiled in is decided by the
  preprocessor: the per-interface I/O statistics of the STA and AP interfaces (each
  absent when the interface handle is NULL or the query fails), the lwIP link packet
  counters, or nothing at all.
\<close>

datatype net_counters =
  Netif_io "(u64 \<times> u64) option" "(u64 \<times> u64) option"
  | Lwip_link u32 u32
  | No_counters

text \<open>One entry of the station list: hardware address and \<^verbatim>\<open>ip.addr\<close>.\<close>

type_synonym sta_entry = "mac_addr \<times> u32"

text \<open>
  Everything one call of \<^verbatim>\<open>traffic_stats_update\<close> reads once it holds the lock:
  the value of \<^verbatim>\<open>esp_timer_get_time()\<close>, the byte counters, and the station list
  (\<open>None\<close> when \<^verbatim>\<open>esp_wifi_ap_get_sta_list\<close> does not return \<^verbatim>\<open>ESP_OK\<close>).
\<close>

record tick_env =
  timer_us :: int
  io_stats :: net_counters
  sta_list :: "sta_entry list option"

subsection \<open>Helpers of the update tick\<close>

definition DEFAULT_MTU_SIZE :: u64 where
  "DEFAULT_MTU_SIZE = 1500"

definition get_time_ms :: "int \<Rightarrow> u32" where
  "get_time_ms us = word_of_int (us sdiv 1000)"

text \<open>The accumulation of \<^verbatim>\<open>total_rx\<close> and \<^verbatim>\<open>total_tx\<close>, both starting at 0.\<close>

fun read_totals :: "net_counters \<Rightarrow> u64 \<times> u64" where
  "read_totals (Netif_io sta ap) =
     (let (rx1, tx1) = (case sta of None \<Rightarrow> (0, 0) | Some (r, t) \<Rightarrow> (0 + r, 0 + t))
      in (case ap of None \<Rightarrow> (rx1, tx1) | Some (r, t) \<Rightarrow> (rx1 + r, tx1 + t)))"
| "read_totals (Lwip_link recv xmit) =
     (ucast recv * DEFAULT_MTU_SIZE, ucast xmit * DEFAULT_MTU_SIZE)"
| "read_totals No_counters = (0, 0)"

definition total_rx :: "tick_env \<Rightarrow> u64" where
  "total_rx env = fst (read_totals (io_stats env))"

definition total_tx :: "tick_env \<Rightarrow> u64" where
  "total_tx env = snd (read_totals (io_stats env))"

text \<open>
  \<^verbatim>\<open>for (j = 0; j < MAX_CLIENTS; j++) if (P(g_clients[j])) { slot = j; break; }\<close>
  with \<^verbatim>\<open>slot\<close> starting at -1: the least index whose record satisfies the test,
  \<open>None\<close> for -1.
\<close>

primrec first_slot :: "(client_stats_t \<Rightarrow> bool) \<Rightarrow> client_stats_t list \<Rightarrow> nat option" where
  "first_slot P [] = None"
| "first_slot P (c # cs) = (if P c then Some 0 else map_option Suc (first_slot P cs))"

definition mac_matches :: "mac_addr \<Rightarrow> client_stats_t \<Rightarrow> bool" where
  "mac_matches m c = (mac c = m)"

definition slot_empty :: "client_stats_t \<Rightarrow> bool" where
  "slot_empty c = (\<not> active c \<and> ip c = 0)"

text \<open>The body of the loop over the reported stations.\<close>

definition update_client :: "u32 \<Rightarrow> sta_entry \<Rightarrow> client_stats_t list \<Rightarrow> client_stats_t list" where
  "update_client current_time sta cs =
     (let slot = (case first_slot (mac_matches (fst sta)) cs of
                    Some j \<Rightarrow> Some j
                  | None \<Rightarrow> first_slot slot_empty cs)
      in case slot of
           None \<Rightarrow> cs
         | Some j \<Rightarrow> cs[j := (cs ! j)\<lparr>mac := fst sta, ip := snd sta, active := True,
                                     last_active := current_time\<rparr>])"

primrec process_stas :: "u32 \<Rightarrow> sta_entry list \<Rightarrow> client_stats_t list \<Rightarrow> client_stats_t list" where
  "process_stas current_time [] cs = cs"
| "process_stas current_time (sta # stas) cs =
     process_stas current_time stas (update_client current_time sta cs)"

text \<open>
  The client part of a tick once the station list has been read: every slot is marked
  inactive, then the stations with index below both \<^verbatim>\<open>num\<close> and \<^verbatim>\<open>MAX_CLIENTS\<close>
  are processed in list order.
\<close>

definition update_clients :: "u32 \<Rightarrow> sta_entry list \<Rightarrow> client_stats_t list \<Rightarrow> client_stats_t list" where
  "update_clients current_time stas cs =
     process_stas current_time (take MAX_CLIENTS stas) (map (\<lambda>c. c\<lparr>active := False\<rparr>) cs)"

definition time_diff :: "u32 \<Rightarrow> u32 \<Rightarrow> u32" where
  "time_diff current_time prev_time =
     (let d = current_time - prev_time in if d = 0 then 1 else d)"

definition speed_of :: "u64 \<Rightarrow> u32 \<Rightarrow> u32" where
  "speed_of diff td = ucast ((diff * 1000) div ucast td)"

subsection \<open>Entry points\<close>

definition traffic_stats_init :: "bool \<Rightarrow> int \<Rightarrow> esp_err_t \<Rightarrow> esp_err_t \<Rightarrow> stats_state \<Rightarrow> esp_err_t \<times> stats_state" where
  "traffic_stats_init mutex_created now_us create_ret start_ret s =
     (if g_initialized s then (ESP_OK, s)
      else if \<not> mutex_created then (ESP_ERR_NO_MEM, s\<lparr>g_stats_mutex := False\<rparr>)
      else
        let s1 = s\<lparr>g_stats_mutex := True, g_stats := zero_stats,
                   g_clients := replicate MAX_CLIENTS zero_client,
                   g_start_time := get_time_ms now_us,
                   prev_update_time := get_time_ms now_us\<rparr>
        in if create_ret \<noteq> ESP_OK then (create_ret, s1)
           else if start_ret \<noteq> ESP_OK then (start_ret, s1\<lparr>g_update_timer := True\<rparr>)
           else (ESP_OK, s1\<lparr>g_update_timer := True, g_initialized := True\<rparr>))"

definition traffic_stats_deinit :: "stats_state \<Rightarrow> stats_state" where
  "traffic_stats_deinit s =
     (if \<not> g_initialized s then s
      else s\<lparr>g_update_timer := False, g_stats_mutex := False, g_initialized := False\<rparr>)"

text \<open>
  \<open>took\<close> is whether \<^verbatim>\<open>xSemaphoreTake(g_stats_mutex, pdMS_TO_TICKS(100))\<close> returned
  \<^verbatim>\<open>pdTRUE\<close>; it is only consulted where the C code reaches the call.
\<close>

definition traffic_stats_update :: "bool \<Rightarrow> tick_env \<Rightarrow> stats_state \<Rightarrow> stats_state" where
  "traffic_stats_update took env s =
     (if \<not> g_initialized s then s
      else if \<not> took then s
      else
        let current_time = get_time_ms (timer_us env);
            td = time_diff current_time (prev_update_time s);
            (trx, ttx) = read_totals (io_stats env);
            st1 = (g_stats s)\<lparr>rx_bytes := trx, tx_bytes := ttx\<rparr>;
            st2 = (if prev_rx_bytes s > 0 \<and> trx \<ge> prev_rx_bytes s
                   then st1\<lparr>rx_speed := speed_of (trx - prev_rx_bytes s) td\<rparr> else st1);
            st3 = (if prev_tx_bytes s > 0 \<and> ttx \<ge> prev_tx_bytes s
                   then st2\<lparr>tx_speed := speed_of (ttx - prev_tx_bytes s) td\<rparr> else st2);
            st4 = (if rx_speed st3 > peak_rx_speed st3
                   then st3\<lparr>peak_rx_speed := rx_speed st3\<rparr> else st3);
            st5 = (if tx_speed st4 > peak_tx_speed st4
                   then st4\<lparr>peak_tx_speed := tx_speed st4\<rparr> else st4);
            st6 = st5\<lparr>last_update := current_time\<rparr>
        in s\<lparr>g_stats := st6,
             prev_rx_bytes := trx, prev_tx_bytes := ttx, prev_update_time := current_time,
             g_clients := (case sta_list env of
                             None \<Rightarrow> g_clients s
                           | Some stas \<Rightarrow> update_clients current_time stas (g_clients s))\<rparr>)"

text \<open>
  The caller's buffer is \<open>None\<close> for a NULL pointer and \<open>Some v\<close> for a pointer to a
  structure holding \<open>v\<close>; the result is what the buffer holds when the call returns.
\<close>

definition traffic_stats_get :: "bool \<Rightarrow> stats_state \<Rightarrow> traffic_stats_t option \<Rightarrow> traffic_stats_t option" where
  "traffic_stats_get took s stats =
     (if \<not> g_initialized s \<or> stats = None
      then (case stats of None \<Rightarrow> None | Some v \<Rightarrow> Some zero_stats)
      else if took then Some (g_stats s) else stats)"

text \<open>
  The copy loop of \<^verbatim>\<open>traffic_stats_get_clients\<close> over the table, with the running
  \<^verbatim>\<open>count\<close> and the caller's array.
\<close>

primrec copy_active :: "client_stats_t list \<Rightarrow> nat \<Rightarrow> nat \<Rightarrow> client_stats_t list \<Rightarrow> nat \<times> client_stats_t list" where
  "copy_active [] max_clients count buf = (count, buf)"
| "copy_active (c # cs) max_clients count buf =
     (if count < max_clients
      then (if active c then copy_active cs max_clients (Suc count) (buf[count := c])
            else copy_active cs max_clients count buf)
      else (count, buf))"

definition traffic_stats_get_clients :: "bool \<Rightarrow> stats_state \<Rightarrow> client_stats_t list option \<Rightarrow> int \<Rightarrow> int \<times> client_stats_t list option" where
  "traffic_stats_get_clients took s clients max_clients =
     (case clients of
        None \<Rightarrow> (0, None)
      | Some buf \<Rightarrow>
          if \<not> g_initialized s \<or> max_clients \<le> 0 then (0, Some buf)
          else if took
            then (let (count, buf') = copy_active (g_clients s) (nat max_clients) 0 buf
                  in (int count, Some buf'))
            else (0, Some buf))"

definition traffic_stats_reset :: "bool \<Rightarrow> int \<Rightarrow> stats_state \<Rightarrow> stats_state" where
  "traffic_stats_reset took now_us s =
     (if \<not> g_initialized s then s
      else if took
        then s\<lparr>g_stats := zero_stats, prev_rx_bytes := 0, prev_tx_bytes := 0,
               g_start_time := get_time_ms now_us\<rparr>
        else s)"

definition traffic_stats_reset_peak :: "bool \<Rightarrow> stats_state \<Rightarrow> stats_state" where
  "traffic_stats_reset_peak took s =
     (if \<not> g_initialized s then s
      else if took
        then s\<lparr>g_stats := (g_stats s)\<lparr>peak_rx_speed := 0, peak_tx_speed := 0\<rparr>\<rparr>
        else s)"

subsection \<open>Sequences of calls\<close>

datatype event =
  Init bool int esp_err_t esp_err_t
  | Deinit
  | Update bool tick_env
  | Reset bool int
  | Reset_peak bool

fun step :: "stats_state \<Rightarrow> event \<Rightarrow> stats_state" where
  "step s (Init mutex_created now_us create_ret start_ret) =
     snd (traffic_stats_init mutex_created now_us create_ret start_ret s)"
| "step s Deinit = traffic_stats_deinit s"
| "step s (Update took env) = traffic_stats_update took env s"
| "step s (Reset took now_us) = traffic_stats_reset took now_us s"
| "step s (Reset_peak took) = traffic_stats_reset_peak took s"

definition run :: "stats_state \<Rightarrow> event list \<Rightarrow> stats_state" where
  "run s es = foldl step s es"

subsection \<open>Notions used to state the properties\<close>

text \<open>
  What the caller of \<^verbatim>\<open>traffic_stats_get_clients\<close> reads back: the first \<^verbatim>\<open>count\<close>
  elements of its array.
\<close>

definition returned_clients :: "int \<times> client_stats_t list option \<Rightarrow> client_stats_t list" where
  "returned_clients r = (case snd r of None \<Rightarrow> [] | Some out \<Rightarrow> take (nat (fst r)) out)"

text \<open>
  A run of update ticks, each with the outcome of its lock acquisition, and the
  snapshots \<^verbatim>\<open>g_stats\<close> holds after each tick that obtained the lock.
\<close>

primrec ticks_run :: "stats_state \<Rightarrow> (bool \<times> tick_env) list \<Rightarrow> stats_state" where
  "ticks_run s [] = s"
| "ticks_run s (t # ts) = ticks_run (traffic_stats_update (fst t) (snd t) s) ts"

primrec tick_samples :: "stats_state \<Rightarrow> (bool \<times> tick_env) list \<Rightarrow> traffic_stats_t list" where
  "tick_samples s [] = []"
| "tick_samples s (t # ts) =
     (if fst t then [g_stats (traffic_stats_update (fst t) (snd t) s)] else [])
       @ tick_samples (traffic_stats_update (fst t) (snd t) s) ts"

text \<open>
  The speeds a run of ticks computes: the value the guarded assignment stores, for each
  tick that obtained the lock on a running module and whose guard held.
\<close>

primrec computed_rx_speeds :: "stats_state \<Rightarrow> (bool \<times> tick_env) list \<Rightarrow> u32 list" where
  "computed_rx_speeds s [] = []"
| "computed_rx_speeds s (t # ts) =
     (if g_initialized s \<and> fst t \<and> prev_rx_bytes s > 0 \<and> total_rx (snd t) \<ge> prev_rx_bytes s
      then [rx_speed (g_stats (traffic_stats_update (fst t) (snd t) s))] else [])
       @ computed_rx_speeds (traffic_stats_update (fst t) (snd t) s) ts"

primrec computed_tx_speeds :: "stats_state \<Rightarrow> (bool \<times> tick_env) list \<Rightarrow> u32 list" where
  "computed_tx_speeds s [] = []"
| "computed_tx_speeds s (t # ts) =
     (if g_initialized s \<and> fst t \<and> prev_tx_bytes s > 0 \<and> total_tx (snd t) \<ge> prev_tx_bytes s
      then [tx_speed (g_stats (traffic_stats_update (fst t) (snd t) s))] else [])
       @ computed_tx_speeds (traffic_stats_update (fst t) (snd t) s) ts"



text \<open>The record a station leaves in a slot that was zero before.\<close>

definition new_client :: "u32 \<Rightarrow> sta_entry \<Rightarrow> client_stats_t" where
  "new_client ct sta =
     zero_client\<lparr>mac := fst sta, ip := snd sta, active := True, last_active := ct\<rparr>"

text \<open>
  The invariant behind the uniqueness of active addresses: an active record is the
  first one in the table that holds its address.
\<close>

definition first_holder :: "client_stats_t list \<Rightarrow> bool" where
  "first_holder cs =
     (\<forall>j<length cs. active (cs ! j) \<longrightarrow> (\<forall>i<j. mac (cs ! i) \<noteq> mac (cs ! j)))"

text \<open>Events of a call sequence: lifecycle calls, resets, and the ticks that ran.\<close>

fun is_lifecycle :: "event \<Rightarrow> bool" where
  "is_lifecycle (Init mutex_created now_us create_ret start_ret) = True"
| "is_lifecycle Deinit = True"
| "is_lifecycle e = False"

fun is_reset :: "event \<Rightarrow> bool" where
  "is_reset (Reset took now_us) = True"
| "is_reset e = False"

fun reported :: "event list \<Rightarrow> tick_env list" where
  "reported [] = []"
| "reported (Update took env # es) = (if took then env # reported es else reported es)"
| "reported (e # es) = reported es"

text \<open>
  Along a call sequence: after every tick that ran the two byte counters are the totals
  that tick read, and no call other than a reset lowers either counter.
\<close>

fun counters_track :: "stats_state \<Rightarrow> event list \<Rightarrow> bool" where
  "counters_track s [] = True"
| "counters_track s (e # es) =
     ((case e of
         Update took env \<Rightarrow>
           (if took
            then rx_bytes (g_stats (step s e)) = total_rx env
               \<and> tx_bytes (g_stats (step s e)) = total_tx env
            else True)
       | _ \<Rightarrow> True)
      \<and> (if is_reset e then True
         else rx_bytes (g_stats s) \<le> rx_bytes (g_stats (step s e))
            \<and> tx_bytes (g_stats s) \<le> tx_bytes (g_stats (step s e)))
      \<and> counters_track (step s e) es)"

text \<open>
  The allocation policy in the words of the specification, for comparison with
  \<^const>\<open>update_client\<close>: on a miss the station goes to the first slot that is inactive,
  whatever that slot holds.
\<close>

definition slot_inactive :: "client_stats_t \<Rightarrow> bool" where
  "slot_inactive c = (\<not> active c)"

definition spec_update_client :: "u32 \<Rightarrow> sta_entry \<Rightarrow> client_stats_t list \<Rightarrow> client_stats_t list" where
  "spec_update_client current_time sta cs =
     (let slot = (case first_slot (mac_matches (fst sta)) cs of
                    Some j \<Rightarrow> Some j
                  | None \<Rightarrow> first_slot slot_inactive cs)
      in case slot of
           None \<Rightarrow> cs
         | Some j \<Rightarrow> cs[j := (cs ! j)\<lparr>mac := fst sta, ip := snd sta, active := True,
                                     last_active := current_time\<rparr>])"

subsection \<open>Concrete scenarios\<close>

text \<open>
  A running module after a tick at 2000 ms: one client with a non-zero address and IP in
  slot 0, the previous samples at 3000 and 700 bytes.
\<close>

definition ex_client :: client_stats_t where
  "ex_client = \<lparr>mac = (170, 187, 204, 221, 238, 1), ip = 33859776, cl_rx_bytes = 0,
     cl_tx_bytes = 0, last_active = 2000, active = True\<rparr>"

definition ex_state :: stats_state where
  "ex_state = \<lparr>g_stats = \<lparr>rx_bytes = 3000, tx_bytes = 700, rx_speed = 2000, tx_speed = 150,
       peak_rx_speed = 2000, peak_tx_speed = 150, last_update = 2000\<rparr>,
     g_clients = ex_client # replicate 15 zero_client,
     g_start_time = 0, g_stats_mutex = True, g_update_timer = True,
     g_initialized = True, prev_rx_bytes = 3000, prev_tx_bytes = 700, prev_update_time = 2000\<rparr>"

text \<open>
  What a tick at 3000 ms reads: 5000 bytes received and 600 sent in total (the sent
  counter has gone back), and one station, different from the one in slot 0.
\<close>

definition ex_sta :: sta_entry where
  "ex_sta = ((170, 187, 204, 221, 238, 2), 50636992)"

definition ex_env :: tick_env where
  "ex_env = \<lparr>timer_us = 3000000, io_stats = Netif_io (Some (4000, 500)) (Some (1000, 100)),
     sta_list = Some [ex_sta]\<rparr>"

text \<open>A tick at 2500 ms that finds no station at all.\<close>

definition ex_env_absent :: tick_env where
  "ex_env_absent = \<lparr>timer_us = 2500000, io_stats = Netif_io (Some (3000, 700)) None,
     sta_list = Some []\<rparr>"

text \<open>Ticks whose totals do not go back: 5000 and 800 at 3000 ms, 6000 and 900 at 4000 ms.\<close>

definition ex_env_up :: tick_env where
  "ex_env_up = \<lparr>timer_us = 3000000, io_stats = Netif_io None (Some (5000, 800)),
     sta_list = None\<rparr>"

definition ex_env_later :: tick_env where
  "ex_env_later = \<lparr>timer_us = 4000000, io_stats = Netif_io (Some (6000, 900)) None,
     sta_list = None\<rparr>"

definition ex_ticks :: "(bool \<times> tick_env) list" where
  "ex_ticks = [(True, ex_env), (False, ex_env_up), (True, ex_env_later)]"

definition ex_events :: "event list" where
  "ex_events = [Update True ex_env_up, Reset_peak True, Update False ex_env_absent,
     Reset True 3500000, Update True ex_env_later]"




text \<open>
  Two ticks for the running module: at 3000 ms both counters have gone back (100 and 50
  bytes), at 4000 ms they have grown again (1100 and 100 bytes).
\<close>

definition ex_env_regress :: tick_env where
  "ex_env_regress = \<lparr>timer_us = 3000000, io_stats = Netif_io (Some (100, 50)) None,
     sta_list = None\<rparr>"

definition ex_env_recover :: tick_env where
  "ex_env_recover = \<lparr>timer_us = 4000000, io_stats = Netif_io (Some (1100, 100)) None,
     sta_list = None\<rparr>"

definition ex_ticks_carry :: "(bool \<times> tick_env) list" where
  "ex_ticks_carry = [(True, ex_env_regress), (True, ex_env_recover)]"

text \<open>The table after the station of slot 0 has been absent for one tick.\<close>

definition stale_table :: "client_stats_t list" where
  "stale_table = ex_client\<lparr>active := False\<rparr> # replicate 15 zero_client"

text \<open>A table with three active records, in slots 0, 2 and 3.\<close>

definition ex_table_state :: stats_state where
  "ex_table_state = ex_state\<lparr>g_clients :=
     [ex_client, zero_client, new_client 2000 ex_sta,
      new_client 2000 ((170, 187, 204, 221, 238, 3), 67414208)] @ replicate 12 zero_client\<rparr>"

text \<open>
  The module right after a successful initialisation at 1000 ms, and a tick at 2000 ms
  that is handed twenty stations with pairwise different addresses (the all-zero
  address and an entry without IP among them).
\<close>

definition fresh_state :: stats_state where
  "fresh_state = snd (traffic_stats_init True 1000000 ESP_OK ESP_OK boot_state)"

definition ex_stas20 :: "sta_entry list" where
  "ex_stas20 =
    [((2, 0, 0, 0, 0, 1), 3232236545), ((2, 0, 0, 0, 0, 2), 3232236546),
     ((0, 0, 0, 0, 0, 0), 3232236547), ((2, 0, 0, 0, 0, 4), 3232236548),
     ((2, 0, 0, 0, 0, 5), 0), ((2, 0, 0, 0, 0, 6), 3232236550),
     ((2, 0, 0, 0, 0, 7), 3232236551), ((2, 0, 0, 0, 0, 8), 3232236552),
     ((2, 0, 0, 0, 0, 9), 3232236553), ((2, 0, 0, 0, 0, 10), 3232236554),
     ((2, 0, 0, 0, 0, 11), 3232236555), ((2, 0, 0, 0, 0, 12), 3232236556),
     ((2, 0, 0, 0, 0, 13), 3232236557), ((2, 0, 0, 0, 0, 14), 3232236558),
     ((2, 0, 0, 0, 0, 15), 3232236559), ((2, 0, 0, 0, 0, 16), 3232236560),
     ((2, 0, 0, 0, 0, 17), 3232236561), ((2, 0, 0, 0, 0, 18), 3232236562),
     ((2, 0, 0, 0, 0, 19), 3232236563), ((2, 0, 0, 0, 0, 20), 3232236564)]"

definition ex_env20 :: tick_env where
  "ex_env20 = \<lparr>timer_us = 2000000, io_stats = No_counters, sta_list = Some ex_stas20\<rparr>"

text \<open>
  A call sequence from program start: initialisation, a tick that sees one station, and a
  tick whose station list names one address twice.
\<close>

definition ex_env_dup :: tick_env where
  "ex_env_dup = \<lparr>timer_us = 4000000, io_stats = No_counters,
     sta_list = Some [((170, 187, 204, 221, 238, 1), 33859776), ex_sta,
                      ((170, 187, 204, 221, 238, 1), 84191424)]\<rparr>"

definition ex_calls :: "event list" where
  "ex_calls = [Init True 1000000 ESP_OK ESP_OK, Update True ex_env, Update True ex_env_dup]"

section \<open>Properties\<close>

subsection \<open>Auxiliary facts: time and speed\<close>

lemma ex_state_initialized: "g_initialized ex_state"
  by (simp add: ex_state_def)

lemma get_time_ms_nonneg: "0 \<le> us \<Longrightarrow> get_time_ms us = word_of_int (us div 1000)"
  by (simp add: get_time_ms_def signed_divide_int_def sgn_if)




text \<open>After a tick that ran, the baseline time and the published field agree.\<close>

lemma update_syncs_last_update:
  "g_initialized s \<Longrightarrow>
   prev_update_time (traffic_stats_update True env s) =
   last_update (g_stats (traffic_stats_update True env s))"
  by (simp add: traffic_stats_update_def Let_def split: prod.split)

subsection \<open>Auxiliary facts: lifecycle\<close>

lemma not_initialized_boot: "\<not> g_initialized boot_state"
  by (simp add: boot_state_def)

lemma not_initialized_deinit: "\<not> g_initialized (traffic_stats_deinit s)"
  by (simp add: traffic_stats_deinit_def)

lemma init_initialized_iff:
  "\<not> g_initialized s \<Longrightarrow>
   g_initialized (snd (traffic_stats_init m t c r s)) \<longleftrightarrow>
   fst (traffic_stats_init m t c r s) = ESP_OK"
  by (simp add: traffic_stats_init_def Let_def ESP_OK_def ESP_ERR_NO_MEM_def)

subsection \<open>Auxiliary facts: peaks over a run of ticks\<close>

lemma update_keeps_initialized:
  "g_initialized (traffic_stats_update took env s) = g_initialized s"
  by (simp add: traffic_stats_update_def Let_def split: prod.split)

lemma update_peak_step:
  assumes "g_initialized s"
  shows "peak_rx_speed (g_stats (traffic_stats_update True env s)) =
           max (peak_rx_speed (g_stats s)) (rx_speed (g_stats (traffic_stats_update True env s)))"
    and "peak_tx_speed (g_stats (traffic_stats_update True env s)) =
           max (peak_tx_speed (g_stats s)) (tx_speed (g_stats (traffic_stats_update True env s)))"
  using assms
  by (auto simp add: traffic_stats_update_def Let_def max_def split: prod.split)

lemma update_not_taken: "traffic_stats_update False env s = s"
  by (simp add: traffic_stats_update_def)

lemma Max_insert_max:
  "finite A \<Longrightarrow> Max (insert (max a b) A) = max a (Max (insert b A))"
  for a b :: "'a::linorder"
  by (cases "A = {}") (simp_all add: max.assoc)

lemma peak_rx_over_ticks:
  "g_initialized s \<Longrightarrow>
   peak_rx_speed (g_stats (ticks_run s ticks)) =
     Max (set (peak_rx_speed (g_stats s) # map rx_speed (tick_samples s ticks)))"
proof (induction ticks arbitrary: s)
  case Nil
  show ?case by simp
next
  case (Cons t ts)
  obtain took env where t: "t = (took, env)" by (cases t)
  let ?s' = "traffic_stats_update took env s"
  have i: "g_initialized ?s'"
    using Cons.prems by (simp add: update_keeps_initialized)
  show ?case
  proof (cases took)
    case False
    then show ?thesis
      using Cons.IH [OF Cons.prems] t by (simp add: update_not_taken)
  next
    case True
    have "peak_rx_speed (g_stats (ticks_run s (t # ts))) =
          Max (set (peak_rx_speed (g_stats ?s') # map rx_speed (tick_samples ?s' ts)))"
      using Cons.IH [OF i] t by simp
    also have "\<dots> =
          Max (set (peak_rx_speed (g_stats s) # map rx_speed (tick_samples s (t # ts))))"
      using True t update_peak_step(1) [OF Cons.prems, of env]
      by (simp add: Max_insert_max)
    finally show ?thesis .
  qed
qed

lemma peak_tx_over_ticks:
  "g_initialized s \<Longrightarrow>
   peak_tx_speed (g_stats (ticks_run s ticks)) =
     Max (set (peak_tx_speed (g_stats s) # map tx_speed (tick_samples s ticks)))"
proof (induction ticks arbitrary: s)
  case Nil
  show ?case by simp
next
  case (Cons t ts)
  obtain took env where t: "t = (took, env)" by (cases t)
  let ?s' = "traffic_stats_update took env s"
  have i: "g_initialized ?s'"
    using Cons.prems by (simp add: update_keeps_initialized)
  show ?case
  proof (cases took)
    case False
    then show ?thesis
      using Cons.IH [OF Cons.prems] t by (simp add: update_not_taken)
  next
    case True
    have "peak_tx_speed (g_stats (ticks_run s (t # ts))) =
          Max (set (peak_tx_speed (g_stats ?s') # map tx_speed (tick_samples ?s' ts)))"
      using Cons.IH [OF i] t by simp
    also have "\<dots> =
          Max (set (peak_tx_speed (g_stats s) # map tx_speed (tick_samples s (t # ts))))"
      using True t update_peak_step(2) [OF Cons.prems, of env]
      by (simp add: Max_insert_max)
    finally show ?thesis .
  qed
qed


lemma reset_peak_effect:
  "g_initialized s \<Longrightarrow>
   g_initialized (traffic_stats_reset_peak True s)
   \<and> peak_rx_speed (g_stats (traffic_stats_reset_peak True s)) = 0
   \<and> peak_tx_speed (g_stats (traffic_stats_reset_peak True s)) = 0"
  by (simp add: traffic_stats_reset_peak_def)

subsection \<open>Auxiliary facts: the copy loop\<close>

lemma copy_active_spec:
  "count \<le> m \<Longrightarrow> m \<le> length buf \<Longrightarrow>
   copy_active cs m count buf =
     (count + length (take (m - count) (filter active cs)),
      take count buf @ take (m - count) (filter active cs)
        @ drop (count + length (take (m - count) (filter active cs))) buf)"
proof (induction cs arbitrary: count buf)
  case Nil
  then show ?case by simp
next
  case (Cons c cs)
  show ?case
  proof (cases "count < m")
    case False
    with Cons.prems show ?thesis by simp
  next
    case True
    show ?thesis
    proof (cases "active c")
      case False
      with True Cons show ?thesis by simp
    next
      case act: True
      have lt: "count < length buf" using True Cons.prems by simp
      have m: "m - count = Suc (m - Suc count)" using True by simp
      have tk: "take (Suc count) (buf[count := c]) = take count buf @ [c]"
        using lt by (simp add: take_Suc_conv_app_nth)
      have "copy_active (c # cs) m count buf = copy_active cs m (Suc count) (buf[count := c])"
        using True act by simp
      also have "\<dots> = (Suc count + length (take (m - Suc count) (filter active cs)),
        take (Suc count) (buf[count := c]) @ take (m - Suc count) (filter active cs)
        @ drop (Suc count + length (take (m - Suc count) (filter active cs))) (buf[count := c]))"
        using True Cons.prems by (intro Cons.IH) simp_all
      finally show ?thesis
        using act by (simp add: tk m del: length_take)
    qed
  qed
qed

lemma take_min_length: "take (min (length xs) n) xs = take n xs"
  by (simp add: min_def)

lemma get_clients_returned:
  assumes "nat max_clients \<le> length buf"
  shows "returned_clients (traffic_stats_get_clients took s (Some buf) max_clients) =
           (if g_initialized s \<and> took
            then take (nat max_clients) (filter active (g_clients s)) else [])"
    and "fst (traffic_stats_get_clients took s (Some buf) max_clients) =
           int (length (returned_clients (traffic_stats_get_clients took s (Some buf) max_clients)))"
  using assms
  by (simp_all add: traffic_stats_get_clients_def returned_clients_def Let_def
      copy_active_spec [OF _ assms] take_min_length)

subsection \<open>Auxiliary facts: slot search and the registry invariant\<close>

lemma first_slot_None_iff: "first_slot P cs = None \<longleftrightarrow> (\<forall>c\<in>set cs. \<not> P c)"
  by (induction cs) auto

lemma first_slot_SomeD:
  "first_slot P cs = Some j \<Longrightarrow> j < length cs \<and> P (cs ! j) \<and> (\<forall>i<j. \<not> P (cs ! i))"
proof (induction cs arbitrary: j)
  case Nil
  then show ?case by simp
next
  case (Cons c cs)
  show ?case
  proof (cases "P c")
    case True
    with Cons.prems show ?thesis by simp
  next
    case False
    with Cons.prems obtain k where k: "first_slot P cs = Some k" "j = Suc k"
      by auto
    from Cons.IH [OF k(1)] False k(2) show ?thesis
      by (auto simp: nth_Cons split: nat.split)
  qed
qed

lemma length_update_client [simp]: "length (update_client ct sta cs) = length cs"
  by (simp add: update_client_def Let_def split: option.split)

lemma length_process_stas [simp]: "length (process_stas ct stas cs) = length cs"
  by (induction stas arbitrary: cs) simp_all

lemma length_update_clients [simp]: "length (update_clients ct stas cs) = length cs"
  by (simp add: update_clients_def)

lemma first_holder_update_client:
  assumes "first_holder cs"
  shows "first_holder (update_client ct sta cs)"
proof (cases "first_slot (mac_matches (fst sta)) cs")
  case (Some j)
  from first_slot_SomeD [OF Some]
  have j: "j < length cs" "mac (cs ! j) = fst sta" "\<forall>i<j. mac (cs ! i) \<noteq> fst sta"
    by (simp_all add: mac_matches_def)
  have upd: "update_client ct sta cs =
      cs[j := (cs ! j)\<lparr>mac := fst sta, ip := snd sta, active := True, last_active := ct\<rparr>]"
    using Some by (simp add: update_client_def)
  show ?thesis
    unfolding upd first_holder_def
    using assms j by (auto simp: first_holder_def nth_list_update)
next
  case None
  then have nomatch: "\<forall>i<length cs. mac (cs ! i) \<noteq> fst sta"
    by (simp add: first_slot_None_iff mac_matches_def)
  show ?thesis
  proof (cases "first_slot slot_empty cs")
    case None2: None
    then show ?thesis using None assms by (simp add: update_client_def)
  next
    case (Some j)
    from first_slot_SomeD [OF Some]
    have j: "j < length cs" "\<not> active (cs ! j)"
      by (simp_all add: slot_empty_def)
    have upd: "update_client ct sta cs =
        cs[j := (cs ! j)\<lparr>mac := fst sta, ip := snd sta, active := True, last_active := ct\<rparr>]"
      using None Some by (simp add: update_client_def)
    show ?thesis
      unfolding upd first_holder_def
      using assms j nomatch by (auto simp: first_holder_def nth_list_update)
  qed
qed

lemma first_holder_process_stas:
  "first_holder cs \<Longrightarrow> first_holder (process_stas ct stas cs)"
  by (induction stas arbitrary: cs) (simp_all add: first_holder_update_client)

lemma first_holder_all_inactive: "first_holder (map (\<lambda>c. c\<lparr>active := False\<rparr>) cs)"
  by (simp add: first_holder_def)

lemma first_holder_update_clients: "first_holder (update_clients ct stas cs)"
  unfolding update_clients_def
  by (rule first_holder_process_stas) (rule first_holder_all_inactive)

lemma first_holder_distinct:
  "first_holder cs \<Longrightarrow> distinct (map mac (filter active cs))"
proof (induction cs rule: rev_induct)
  case Nil
  show ?case by simp
next
  case (snoc c cs)
  have fh: "first_holder cs"
    using snoc.prems unfolding first_holder_def
    by (auto simp: nth_append split: if_splits)
  have "mac c \<notin> mac ` set cs" if "active c"
  proof
    assume "mac c \<in> mac ` set cs"
    then obtain i where "i < length cs" "mac (cs ! i) = mac c"
      by (auto simp: in_set_conv_nth)
    moreover have "\<forall>i<length cs. mac ((cs @ [c]) ! i) \<noteq> mac ((cs @ [c]) ! length cs)"
    proof -
      have "length cs < length (cs @ [c])" and "active ((cs @ [c]) ! length cs)"
        using that by simp_all
      then show ?thesis
        using snoc.prems unfolding first_holder_def by blast
    qed
    ultimately show False by (simp add: nth_append)
  qed
  then show ?case
    using snoc.IH [OF fh] by auto
qed

lemma first_slot_append:
  "first_slot P xs = None \<Longrightarrow>
   first_slot P (xs @ ys) = map_option (\<lambda>j. length xs + j) (first_slot P ys)"
proof (induction xs)
  case Nil
  show ?case by (cases "first_slot P ys") simp_all
next
  case (Cons x xs)
  then show ?case
    by (cases "first_slot P ys") (auto split: if_splits)
qed

lemma update_client_fresh:
  assumes "\<forall>c\<in>set used. active c \<and> mac c \<noteq> fst sta"
  shows "update_client ct sta (used @ zero_client # replicate k zero_client) =
           used @ new_client ct sta # replicate k zero_client"
proof -
  have nm: "first_slot (mac_matches (fst sta)) used = None"
    using assms by (simp add: first_slot_None_iff mac_matches_def)
  have ne: "first_slot slot_empty used = None"
    using assms by (simp add: first_slot_None_iff slot_empty_def)
  have ze: "slot_empty zero_client"
    by (simp add: slot_empty_def zero_client_def)
  have upd: "(used @ zero_client # replicate k zero_client)
      [length used := ((used @ zero_client # replicate k zero_client) ! length used)
         \<lparr>mac := fst sta, ip := snd sta, active := True, last_active := ct\<rparr>] =
      used @ new_client ct sta # replicate k zero_client"
    by (simp add: new_client_def)
  show ?thesis
  proof (cases "fst sta = zero_mac")
    case True
    then have "mac_matches (fst sta) zero_client"
      by (simp add: mac_matches_def zero_client_def)
    then have "first_slot (mac_matches (fst sta)) (used @ zero_client # replicate k zero_client)
        = Some (length used)"
      by (simp add: first_slot_append [OF nm])
    then show ?thesis
      using upd by (simp add: update_client_def)
  next
    case False
    then have "first_slot (mac_matches (fst sta)) (zero_client # replicate k zero_client) = None"
      by (auto simp: first_slot_None_iff mac_matches_def zero_client_def)
    then have "first_slot (mac_matches (fst sta)) (used @ zero_client # replicate k zero_client)
        = None"
      by (simp add: first_slot_append [OF nm] del: first_slot.simps)
    moreover have "first_slot slot_empty (used @ zero_client # replicate k zero_client)
        = Some (length used)"
      by (simp add: first_slot_append [OF ne] ze)
    ultimately show ?thesis
      using upd by (simp add: update_client_def)
  qed
qed

lemma process_stas_fresh:
  "distinct (map fst stas) \<Longrightarrow> length stas \<le> k \<Longrightarrow>
   \<forall>c\<in>set used. active c \<and> mac c \<notin> fst ` set stas \<Longrightarrow>
   process_stas ct stas (used @ replicate k zero_client) =
     used @ map (new_client ct) stas @ replicate (k - length stas) zero_client"
proof (induction stas arbitrary: used k)
  case Nil
  show ?case by simp
next
  case (Cons sta stas)
  from Cons.prems(2) obtain k' where k: "k = Suc k'"
    by (cases k) auto
  have u: "\<forall>c\<in>set used. active c \<and> mac c \<noteq> fst sta"
    using Cons.prems(3) by auto
  have step: "update_client ct sta (used @ replicate k zero_client) =
      (used @ [new_client ct sta]) @ replicate k' zero_client"
    using update_client_fresh [OF u, of ct k'] k by simp
  have "process_stas ct stas ((used @ [new_client ct sta]) @ replicate k' zero_client) =
      (used @ [new_client ct sta]) @ map (new_client ct) stas
        @ replicate (k' - length stas) zero_client"
  proof (rule Cons.IH)
    show "distinct (map fst stas)" using Cons.prems(1) by simp
    show "length stas \<le> k'" using Cons.prems(2) k by simp
    show "\<forall>c\<in>set (used @ [new_client ct sta]). active c \<and> mac c \<notin> fst ` set stas"
      using Cons.prems(1,3) by (auto simp: new_client_def)
  qed
  then show ?case
    using step k by simp
qed

lemma update_clients_fresh:
  assumes "distinct (map fst stas)" and "MAX_CLIENTS \<le> length stas"
  shows "update_clients ct stas (replicate MAX_CLIENTS zero_client) =
           map (new_client ct) (take MAX_CLIENTS stas)"
proof -
  have "zero_client\<lparr>active := False\<rparr> = zero_client"
    by (simp add: zero_client_def)
  then have z: "map (\<lambda>c. c\<lparr>active := False\<rparr>) (replicate MAX_CLIENTS zero_client) =
      replicate MAX_CLIENTS zero_client"
    by simp
  have "process_stas ct (take MAX_CLIENTS stas) ([] @ replicate MAX_CLIENTS zero_client) =
      [] @ map (new_client ct) (take MAX_CLIENTS stas)
        @ replicate (MAX_CLIENTS - length (take MAX_CLIENTS stas)) zero_client"
    using assms by (intro process_stas_fresh) (simp_all add: distinct_take take_map [symmetric])
  then show ?thesis
    using assms(2) unfolding update_clients_def z by simp
qed

subsection \<open>Auxiliary facts: scenarios and call sequences\<close>

lemma stale_update:
  "update_client 3000 ex_sta stale_table =
     ex_client\<lparr>active := False\<rparr> # new_client 3000 ex_sta # replicate 14 zero_client"
  by code_simp

lemma stale_spec_update:
  "spec_update_client 3000 ex_sta stale_table =
     ex_client\<lparr>mac := fst ex_sta, ip := snd ex_sta, active := True, last_active := 3000\<rparr>
       # replicate 15 zero_client"
  by code_simp

lemma absent_tick_clients:
  "g_clients (traffic_stats_update True ex_env_absent ex_state) = stale_table"
  by code_simp

lemma first_holder_zero_table: "first_holder (replicate n zero_client)"
  by (simp add: first_holder_def zero_client_def)

lemma first_holder_step:
  assumes "first_holder (g_clients s)"
  shows "first_holder (g_clients (step s e))"
proof (cases e)
  case (Init mutex_created now_us create_ret start_ret)
  then show ?thesis
    using assms first_holder_zero_table [of MAX_CLIENTS]
    by (simp add: traffic_stats_init_def Let_def)
next
  case Deinit
  then show ?thesis using assms by (simp add: traffic_stats_deinit_def)
next
  case (Update took env)
  then show ?thesis
    using assms
    by (simp add: traffic_stats_update_def Let_def first_holder_update_clients
        split: prod.split option.split)
next
  case (Reset took now_us)
  then show ?thesis using assms by (simp add: traffic_stats_reset_def)
next
  case (Reset_peak took)
  then show ?thesis using assms by (simp add: traffic_stats_reset_peak_def)
qed

lemma first_holder_run:
  "first_holder (g_clients s) \<Longrightarrow> first_holder (g_clients (run s es))"
  unfolding run_def
  by (induction es arbitrary: s) (simp_all add: first_holder_step)

lemma filter_active_new_clients:
  "filter active (map (new_client ct) stas) = map (new_client ct) stas"
  by (induction stas) (simp_all add: new_client_def)

lemma mac_new_client: "mac (new_client ct sta) = fst sta"
  by (simp add: new_client_def)

lemma mac_new_clients: "map mac (map (new_client ct) stas) = map fst stas"
  by (simp add: mac_new_client)

lemma step_keeps_initialized:
  "\<not> is_lifecycle e \<Longrightarrow> g_initialized (step s e) = g_initialized s"
  by (cases e)
    (simp_all add: update_keeps_initialized traffic_stats_reset_def
      traffic_stats_reset_peak_def)

lemma update_sets_counters:
  "g_initialized s \<Longrightarrow>
   rx_bytes (g_stats (traffic_stats_update True env s)) = total_rx env
   \<and> tx_bytes (g_stats (traffic_stats_update True env s)) = total_tx env"
  by (simp add: traffic_stats_update_def Let_def total_rx_def total_tx_def split: prod.split)

lemma counters_track_run:
  "g_initialized s \<Longrightarrow> list_all (\<lambda>e. \<not> is_lifecycle e) es \<Longrightarrow>
   sorted (rx_bytes (g_stats s) # map total_rx (reported es)) \<Longrightarrow>
   sorted (tx_bytes (g_stats s) # map total_tx (reported es)) \<Longrightarrow>
   counters_track s es"
proof (induction es arbitrary: s)
  case Nil
  show ?case by simp
next
  case (Cons e es)
  have nl: "\<not> is_lifecycle e" and rest: "list_all (\<lambda>e. \<not> is_lifecycle e) es"
    using Cons.prems(2) by simp_all
  have i: "g_initialized (step s e)"
    using Cons.prems(1) nl by (simp add: step_keeps_initialized)
  show ?case
  proof (cases e)
    case (Init mutex_created now_us create_ret start_ret)
    with nl show ?thesis by simp
  next
    case Deinit
    with nl show ?thesis by simp
  next
    case (Update took env)
    show ?thesis
    proof (cases took)
      case False
      then have "step s e = s" using Update by (simp add: update_not_taken)
      moreover have "reported (e # es) = reported es" using Update False by simp
      ultimately show ?thesis
        using Cons.IH [of s] Cons.prems rest Update False by simp
    next
      case True
      have c: "rx_bytes (g_stats (step s e)) = total_rx env"
        "tx_bytes (g_stats (step s e)) = total_tx env"
        using update_sets_counters [OF Cons.prems(1), of env] Update True by simp_all
      have r: "reported (e # es) = env # reported es" using Update True by simp
      have "counters_track (step s e) es"
        using Cons.prems(3,4) rest i unfolding r
        by (intro Cons.IH) (simp_all add: c)
      then show ?thesis
        using Cons.prems(3,4) c Update True unfolding r by simp
    qed
  next
    case (Reset took now_us)
    have r: "reported (e # es) = reported es" using Reset by simp
    have "rx_bytes (g_stats (step s e)) = rx_bytes (g_stats s) \<or> rx_bytes (g_stats (step s e)) = 0"
      and "tx_bytes (g_stats (step s e)) = tx_bytes (g_stats s) \<or> tx_bytes (g_stats (step s e)) = 0"
      using Reset by (simp_all add: traffic_stats_reset_def zero_stats_def)
    then have "sorted (rx_bytes (g_stats (step s e)) # map total_rx (reported es))"
      and "sorted (tx_bytes (g_stats (step s e)) # map total_tx (reported es))"
      using Cons.prems(3,4) unfolding r by auto
    then have "counters_track (step s e) es"
      using rest i by (intro Cons.IH)
    then show ?thesis using Reset by simp
  next
    case (Reset_peak took)
    have r: "reported (e # es) = reported es" using Reset_peak by simp
    have same: "rx_bytes (g_stats (step s e)) = rx_bytes (g_stats s)"
      "tx_bytes (g_stats (step s e)) = tx_bytes (g_stats s)"
      using Reset_peak by (simp_all add: traffic_stats_reset_peak_def)
    have "counters_track (step s e) es"
      using Cons.prems(3,4) rest i unfolding r same [symmetric]
      by (intro Cons.IH)
    then show ?thesis using Reset_peak same by simp
  qed
qed


lemma computed_rx_among_samples:
  "set (computed_rx_speeds s ticks) \<subseteq> set (map rx_speed (tick_samples s ticks))"
  by (induction ticks arbitrary: s) auto

lemma computed_tx_among_samples:
  "set (computed_tx_speeds s ticks) \<subseteq> set (map tx_speed (tick_samples s ticks))"
  by (induction ticks arbitrary: s) auto

section \<open>The claims\<close>

subsection \<open>Client registry\<close>

text \<open>
  C1, in the form the code supports. When a reported hardware address matches no slot of the table, the
  registry assigns it to the first slot that is inactive and whose recorded IP is zero,
  overwriting whatever address that slot holds; no earlier slot is both inactive and
  without IP. When no slot is inactive with a zero IP the table is left as it is and the
  client is dropped. A slot whose recorded IP is not zero keeps its record, active or
  not: it is never handed to a different address.
\<close>

theorem unmatched_client_takes_first_empty_slot:
  assumes "\<forall>c\<in>set cs. mac c \<noteq> fst sta"
  shows "(case first_slot slot_empty cs of
            None \<Rightarrow> (\<forall>c\<in>set cs. active c \<or> ip c \<noteq> 0) \<and> update_client ct sta cs = cs
          | Some j \<Rightarrow>
              j < length cs \<and> \<not> active (cs ! j) \<and> ip (cs ! j) = 0
            \<and> (\<forall>i<j. active (cs ! i) \<or> ip (cs ! i) \<noteq> 0)
            \<and> update_client ct sta cs =
                cs[j := (cs ! j)\<lparr>mac := fst sta, ip := snd sta, active := True,
                                  last_active := ct\<rparr>])
       \<and> (\<forall>i<length cs. ip (cs ! i) \<noteq> 0 \<longrightarrow> update_client ct sta cs ! i = cs ! i)"
proof -
  have nm: "first_slot (mac_matches (fst sta)) cs = None"
    using assms by (simp add: first_slot_None_iff mac_matches_def)
  show ?thesis
  proof (cases "first_slot slot_empty cs")
    case None
    then have "\<forall>c\<in>set cs. active c \<or> ip c \<noteq> 0"
      by (auto simp: first_slot_None_iff slot_empty_def)
    then show ?thesis
      using None nm by (simp add: update_client_def)
  next
    case (Some j)
    from first_slot_SomeD [OF Some]
    have j: "j < length cs" "\<not> active (cs ! j)" "ip (cs ! j) = 0"
      "\<forall>i<j. active (cs ! i) \<or> ip (cs ! i) \<noteq> 0"
      by (auto simp: slot_empty_def)
    have upd: "update_client ct sta cs =
        cs[j := (cs ! j)\<lparr>mac := fst sta, ip := snd sta, active := True, last_active := ct\<rparr>]"
      using nm Some by (simp add: update_client_def)
    have "update_client ct sta cs ! i = cs ! i" if "ip (cs ! i) \<noteq> 0" for i
    proof -
      have "j \<noteq> i" using that j(3) by auto
      then show ?thesis unfolding upd by simp
    qed
    then show ?thesis
      using Some j upd by simp
  qed
qed

theorem unmatched_client_takes_first_empty_slot_witness:
  "mac (stale_table ! 0) \<noteq> fst ex_sta
   \<and> first_slot slot_empty stale_table = Some 1
   \<and> update_client 3000 ex_sta stale_table =
       stale_table[1 := (stale_table ! 1)\<lparr>mac := fst ex_sta, ip := snd ex_sta, active := True,
                                         last_active := 3000\<rparr>]
   \<and> update_client 3000 ex_sta stale_table ! 0 = stale_table ! 0"
proof -
  have h: "\<forall>c\<in>set stale_table. mac c \<noteq> fst ex_sta"
    by code_simp
  have f: "first_slot slot_empty stale_table = Some 1"
    by code_simp
  have n: "mac (stale_table ! 0) \<noteq> fst ex_sta" "ip (stale_table ! 0) \<noteq> 0"
    "0 < length stale_table"
    by (simp_all add: stale_table_def ex_client_def ex_sta_def)
  show ?thesis
    using unmatched_client_takes_first_empty_slot [OF h, of 3000] f n
    by simp
qed

text \<open>
  The claim as the specification words it, the first slot with \<^verbatim>\<open>active == false\<close>
  whatever it holds, fails on the table in which the client of slot 0 (IP not zero) was
  absent for one tick: slot 0 is the first inactive slot, yet a new address is put into
  slot 1 and slot 0 keeps its stale record.
\<close>

theorem stale_slot_not_reused:
  "g_clients (traffic_stats_update True ex_env_absent ex_state) = stale_table
   \<and> first_slot (mac_matches (fst ex_sta)) stale_table = None
   \<and> first_slot slot_inactive stale_table = Some 0
   \<and> update_client 3000 ex_sta stale_table =
       ex_client\<lparr>active := False\<rparr> # new_client 3000 ex_sta # replicate 14 zero_client
   \<and> update_client 3000 ex_sta stale_table \<noteq> spec_update_client 3000 ex_sta stale_table
   \<and> g_clients (traffic_stats_update True ex_env
         (traffic_stats_update True ex_env_absent ex_state)) =
       ex_client\<lparr>active := False\<rparr> # new_client 3000 ex_sta # replicate 14 zero_client"
proof -
  have "first_slot (mac_matches (fst ex_sta)) stale_table = None"
    by code_simp
  moreover have "first_slot slot_inactive stale_table = Some 0"
    by (simp add: stale_table_def slot_inactive_def)
  moreover have "update_client 3000 ex_sta stale_table \<noteq>
      spec_update_client 3000 ex_sta stale_table"
    unfolding stale_update stale_spec_update
    by (simp add: ex_client_def ex_sta_def)
  moreover have "g_clients (traffic_stats_update True ex_env
         (traffic_stats_update True ex_env_absent ex_state)) =
       ex_client\<lparr>active := False\<rparr> # new_client 3000 ex_sta # replicate 14 zero_client"
    by code_simp
  ultimately show ?thesis
    using stale_update absent_tick_clients by simp
qed

text \<open>
  C2. In every state the module reaches from program start by any sequence of calls
  (initialisations, deinitialisations, update ticks with any lock outcome and any
  reported station list, resets), no two active client records hold the same hardware
  address.
\<close>

theorem active_macs_distinct:
  "distinct (map mac (filter active (g_clients (run boot_state es))))"
proof -
  have "first_holder (g_clients boot_state)"
    by (simp add: boot_state_def first_holder_zero_table)
  then have "first_holder (g_clients (run boot_state es))"
    by (rule first_holder_run)
  then show ?thesis
    by (rule first_holder_distinct)
qed

theorem active_macs_distinct_witness:
  "distinct (map mac (filter active (g_clients (run boot_state ex_calls))))
   \<and> map mac (filter active (g_clients (run boot_state ex_calls))) =
       [(170, 187, 204, 221, 238, 2), (170, 187, 204, 221, 238, 1)]"
proof -
  have "map mac (filter active (g_clients (run boot_state ex_calls))) =
       [(170, 187, 204, 221, 238, 2), (170, 187, 204, 221, 238, 1)]"
    by code_simp
  then show ?thesis
    using active_macs_distinct [of ex_calls] by simp
qed

text \<open>
  C9. A tick that is handed twenty stations with pairwise different addresses while the
  table is as initialisation left it fills the sixteen slots with the first sixteen
  stations in list order, all active. The last four stations are in no slot, so no
  result of \<^verbatim>\<open>traffic_stats_get_clients\<close> contains them. The tick returns nothing
  but the new state.
\<close>

theorem overflow_keeps_first_sixteen:
  assumes "g_initialized s" and "g_clients s = replicate MAX_CLIENTS zero_client"
    and "sta_list env = Some stas" and "distinct (map fst stas)" and "length stas = 20"
    and "max_clients \<le> int (length buf)"
  shows "(let s' = traffic_stats_update True env s;
              ct = get_time_ms (timer_us env);
              r = traffic_stats_get_clients True s' (Some buf) max_clients
          in g_clients s' = map (new_client ct) (take 16 stas)
           \<and> length (filter active (g_clients s')) = 16
           \<and> map mac (filter active (g_clients s')) = map fst (take 16 stas)
           \<and> length (drop 16 stas) = 4
           \<and> (\<forall>sta\<in>set (drop 16 stas). fst sta \<notin> mac ` set (g_clients s'))
           \<and> returned_clients r = take (nat max_clients) (map (new_client ct) (take 16 stas))
           \<and> (\<forall>sta\<in>set (drop 16 stas). fst sta \<notin> mac ` set (returned_clients r)))"
proof -
  let ?s' = "traffic_stats_update True env s"
  let ?ct = "get_time_ms (timer_us env)"
  let ?new = "map (new_client ?ct) (take 16 stas)"
  have len: "MAX_CLIENTS \<le> length stas"
    using assms(5) by (simp add: MAX_CLIENTS_def)
  have tab: "g_clients ?s' = ?new"
    using assms(1,2,3) update_clients_fresh [OF assms(4) len, of ?ct]
    by (simp add: traffic_stats_update_def Let_def MAX_CLIENTS_def split: prod.split)
  have i: "g_initialized ?s'"
    using assms(1) by (simp add: update_keeps_initialized)
  have m: "nat max_clients \<le> length buf" using assms(6) by simp
  have ret: "returned_clients (traffic_stats_get_clients True ?s' (Some buf) max_clients) =
      take (nat max_clients) ?new"
    using get_clients_returned(1) [OF m, of True ?s'] i
    by (simp add: tab filter_active_new_clients)
  have "set (take 16 (map fst stas)) \<inter> set (drop 16 (map fst stas)) = {}"
    using assms(4) by (intro set_take_disj_set_drop_if_distinct) simp_all
  then have disj: "fst sta \<notin> fst ` set (take 16 stas)" if "sta \<in> set (drop 16 stas)" for sta
    using that by (auto simp: take_map drop_map)
  have macs: "mac ` set ?new = fst ` set (take 16 stas)"
    using mac_new_clients [of ?ct "take 16 stas"]
    by (metis list.set_map)
  have abs1: "\<forall>sta\<in>set (drop 16 stas). fst sta \<notin> mac ` set ?new"
    unfolding macs using disj by blast
  have "set (take (nat max_clients) ?new) \<subseteq> set ?new"
    by (rule set_take_subset)
  then have abs2: "\<forall>sta\<in>set (drop 16 stas). fst sta \<notin> mac ` set (take (nat max_clients) ?new)"
    using abs1 by blast
  show ?thesis
    unfolding Let_def tab ret
    using assms(5) abs1 abs2
    by (simp add: filter_active_new_clients mac_new_client)
qed

theorem overflow_keeps_first_sixteen_witness:
  "g_initialized fresh_state
   \<and> g_clients fresh_state = replicate MAX_CLIENTS zero_client
   \<and> distinct (map fst ex_stas20) \<and> length ex_stas20 = 20
   \<and> g_clients (traffic_stats_update True ex_env20 fresh_state) =
       map (new_client 2000) (take 16 ex_stas20)
   \<and> length (filter active (g_clients (traffic_stats_update True ex_env20 fresh_state))) = 16
   \<and> returned_clients (traffic_stats_get_clients True
         (traffic_stats_update True ex_env20 fresh_state) (Some (replicate 20 zero_client)) 20) =
       map (new_client 2000) (take 16 ex_stas20)
   \<and> (2, 0, 0, 0, 0, 17) \<notin> mac ` set (g_clients (traffic_stats_update True ex_env20 fresh_state))"
proof -
  have i: "g_initialized fresh_state"
    by (simp add: fresh_state_def traffic_stats_init_def boot_state_def ESP_OK_def Let_def)
  have c: "g_clients fresh_state = replicate MAX_CLIENTS zero_client"
    by (simp add: fresh_state_def traffic_stats_init_def boot_state_def ESP_OK_def Let_def)
  have l: "sta_list ex_env20 = Some ex_stas20"
    by (simp add: ex_env20_def)
  have d: "distinct (map fst ex_stas20)"
    by (simp add: ex_stas20_def)
  have n: "length ex_stas20 = 20"
    by (simp add: ex_stas20_def)
  have b: "(20::int) \<le> int (length (replicate 20 zero_client))"
    by simp
  have ct: "get_time_ms (timer_us ex_env20) = 2000"
    by (simp add: ex_env20_def get_time_ms_nonneg)
  have m: "((2, 0, 0, 0, 0, 17), 3232236561) \<in> set (drop 16 ex_stas20)"
    by (simp add: ex_stas20_def)
  have t: "take (nat 20) (map (new_client 2000) (take 16 ex_stas20)) =
      map (new_client 2000) (take 16 ex_stas20)"
    by simp
  note r = overflow_keeps_first_sixteen [OF i c l d n b, unfolded Let_def ct t]
  from r have "\<forall>sta\<in>set (drop 16 ex_stas20).
      fst sta \<notin> mac ` set (g_clients (traffic_stats_update True ex_env20 fresh_state))"
    by blast
  from this m have "(2, 0, 0, 0, 0, 17) \<notin>
      mac ` set (g_clients (traffic_stats_update True ex_env20 fresh_state))"
    by fastforce
  moreover from r
  have "g_clients (traffic_stats_update True ex_env20 fresh_state) =
      map (new_client 2000) (take 16 ex_stas20)"
    by blast
  moreover from r
  have "length (filter active (g_clients (traffic_stats_update True ex_env20 fresh_state))) = 16"
    by blast
  moreover from r
  have "returned_clients (traffic_stats_get_clients True
         (traffic_stats_update True ex_env20 fresh_state) (Some (replicate 20 zero_client)) 20) =
       map (new_client 2000) (take 16 ex_stas20)"
    by blast
  ultimately show ?thesis
    using i c d n by blast
qed

subsection \<open>Speed derivation\<close>




text \<open>
  C4, in the form the code supports. After a peak reset that obtained the lock, and any run of update ticks following
  it, each peak equals the maximum of the speed values the snapshot held after the ticks
  of that run that obtained the lock (0 when there was none). The value a tick leaves in
  a speed field counts whether the tick recomputed it or kept the prior one, so a speed
  computed before the peak reset enters the peak again when the next tick keeps it. Every
  speed computed in the run is among these values and hence at most the peak.
\<close>

theorem peak_is_max_since_reset_peak:
  assumes "g_initialized s"
  shows "(let s0 = traffic_stats_reset_peak True s;
              sN = ticks_run s0 ticks;
              samples = tick_samples s0 ticks
          in peak_rx_speed (g_stats sN) = Max (set (0 # map rx_speed samples))
           \<and> peak_tx_speed (g_stats sN) = Max (set (0 # map tx_speed samples))
           \<and> (\<forall>v\<in>set (computed_rx_speeds s0 ticks). v \<le> peak_rx_speed (g_stats sN))
           \<and> (\<forall>v\<in>set (computed_tx_speeds s0 ticks). v \<le> peak_tx_speed (g_stats sN)))"
proof -
  let ?s0 = "traffic_stats_reset_peak True s"
  have rx: "peak_rx_speed (g_stats (ticks_run ?s0 ticks)) =
      Max (set (0 # map rx_speed (tick_samples ?s0 ticks)))"
    using reset_peak_effect [OF assms] peak_rx_over_ticks [of ?s0 ticks] by simp
  have tx: "peak_tx_speed (g_stats (ticks_run ?s0 ticks)) =
      Max (set (0 # map tx_speed (tick_samples ?s0 ticks)))"
    using reset_peak_effect [OF assms] peak_tx_over_ticks [of ?s0 ticks] by simp
  have brx: "v \<le> peak_rx_speed (g_stats (ticks_run ?s0 ticks))"
    if "v \<in> set (computed_rx_speeds ?s0 ticks)" for v
  proof -
    have "v \<in> set (0 # map rx_speed (tick_samples ?s0 ticks))"
      using that computed_rx_among_samples [of ?s0 ticks] by auto
    then show ?thesis unfolding rx by (intro Max_ge) simp_all
  qed
  have btx: "v \<le> peak_tx_speed (g_stats (ticks_run ?s0 ticks))"
    if "v \<in> set (computed_tx_speeds ?s0 ticks)" for v
  proof -
    have "v \<in> set (0 # map tx_speed (tick_samples ?s0 ticks))"
      using that computed_tx_among_samples [of ?s0 ticks] by auto
    then show ?thesis unfolding tx by (intro Max_ge) simp_all
  qed
  show ?thesis
    unfolding Let_def using rx tx brx btx by blast
qed

theorem peak_is_max_since_reset_peak_witness:
  "g_initialized ex_state
   \<and> map rx_speed (tick_samples (traffic_stats_reset_peak True ex_state) ex_ticks) = [2000, 1000]
   \<and> map tx_speed (tick_samples (traffic_stats_reset_peak True ex_state) ex_ticks) = [150, 300]
   \<and> peak_rx_speed (g_stats (ticks_run (traffic_stats_reset_peak True ex_state) ex_ticks)) = 2000
   \<and> peak_tx_speed (g_stats (ticks_run (traffic_stats_reset_peak True ex_state) ex_ticks)) = 300"
proof -
  have rx: "map rx_speed (tick_samples (traffic_stats_reset_peak True ex_state) ex_ticks)
      = [2000, 1000]"
    by code_simp
  have tx: "map tx_speed (tick_samples (traffic_stats_reset_peak True ex_state) ex_ticks)
      = [150, 300]"
    by code_simp
  show ?thesis
    using peak_is_max_since_reset_peak
      [OF ex_state_initialized, of ex_ticks, unfolded Let_def rx tx]
      ex_state_initialized
    by (simp add: rx tx)
qed

text \<open>
  The claim as the specification words it, the maximum of the speeds computed since the
  peak reset, fails when a tick keeps a speed: after the peak reset the first tick finds
  both counters gone back and keeps the speeds 2000 and 150, which become the peaks; the
  second tick computes 1000 and 50, the only speeds computed in the run.
\<close>

theorem peak_counts_carried_speed:
  "g_initialized ex_state
   \<and> rx_speed (g_stats (traffic_stats_reset_peak True ex_state)) = 2000
   \<and> peak_rx_speed (g_stats (traffic_stats_reset_peak True ex_state)) = 0
   \<and> computed_rx_speeds (traffic_stats_reset_peak True ex_state) ex_ticks_carry = [1000]
   \<and> computed_tx_speeds (traffic_stats_reset_peak True ex_state) ex_ticks_carry = [50]
   \<and> peak_rx_speed (g_stats (ticks_run (traffic_stats_reset_peak True ex_state) ex_ticks_carry))
       = 2000
   \<and> peak_tx_speed (g_stats (ticks_run (traffic_stats_reset_peak True ex_state) ex_ticks_carry))
       = 150
   \<and> peak_rx_speed (g_stats (ticks_run (traffic_stats_reset_peak True ex_state) ex_ticks_carry))
       \<noteq> Max (set (computed_rx_speeds (traffic_stats_reset_peak True ex_state) ex_ticks_carry))
   \<and> peak_tx_speed (g_stats (ticks_run (traffic_stats_reset_peak True ex_state) ex_ticks_carry))
       \<noteq> Max (set (computed_tx_speeds (traffic_stats_reset_peak True ex_state) ex_ticks_carry))"
proof -
  have rx: "computed_rx_speeds (traffic_stats_reset_peak True ex_state) ex_ticks_carry = [1000]"
    by code_simp
  have tx: "computed_tx_speeds (traffic_stats_reset_peak True ex_state) ex_ticks_carry = [50]"
    by code_simp
  have a: "g_initialized ex_state
   \<and> rx_speed (g_stats (traffic_stats_reset_peak True ex_state)) = 2000
   \<and> peak_rx_speed (g_stats (traffic_stats_reset_peak True ex_state)) = 0
   \<and> peak_rx_speed (g_stats (ticks_run (traffic_stats_reset_peak True ex_state) ex_ticks_carry))
       = 2000
   \<and> peak_tx_speed (g_stats (ticks_run (traffic_stats_reset_peak True ex_state) ex_ticks_carry))
       = 150"
    by code_simp
  show ?thesis
    using a by (simp add: rx tx)
qed

text \<open>
  C6. From a running module, along any sequence of update ticks, resets and peak resets
  in which the totals read by the ticks that ran do not decrease (starting from the
  counters the snapshot holds), the byte counters after every such tick are the totals
  it read, and no call other than a reset lowers a counter. In particular a tick that
  runs leaves the totals it read in the two counters.
\<close>

theorem counters_follow_reported_totals:
  assumes "g_initialized s"
    and "list_all (\<lambda>e. \<not> is_lifecycle e) es"
    and "sorted (rx_bytes (g_stats s) # map total_rx (reported es))"
    and "sorted (tx_bytes (g_stats s) # map total_tx (reported es))"
  shows "counters_track s es
       \<and> rx_bytes (g_stats (traffic_stats_update True env s)) = total_rx env
       \<and> tx_bytes (g_stats (traffic_stats_update True env s)) = total_tx env"
  using counters_track_run [OF assms] update_sets_counters [OF assms(1), of env] by simp

theorem counters_follow_reported_totals_witness:
  "g_initialized ex_state
   \<and> map total_rx (reported ex_events) = [5000, 6000]
   \<and> map total_tx (reported ex_events) = [800, 900]
   \<and> rx_bytes (g_stats ex_state) = 3000 \<and> tx_bytes (g_stats ex_state) = 700
   \<and> counters_track ex_state ex_events
   \<and> rx_bytes (g_stats (traffic_stats_update True ex_env_up ex_state)) = 5000
   \<and> tx_bytes (g_stats (traffic_stats_update True ex_env_up ex_state)) = 800"
proof -
  have nl: "list_all (\<lambda>e. \<not> is_lifecycle e) ex_events"
    by (simp add: ex_events_def)
  have rx: "map total_rx (reported ex_events) = [5000, 6000]"
    and tx: "map total_tx (reported ex_events) = [800, 900]"
    by (simp_all add: ex_events_def total_rx_def total_tx_def ex_env_up_def ex_env_later_def)
  have st: "rx_bytes (g_stats ex_state) = 3000" "tx_bytes (g_stats ex_state) = 700"
    by (simp_all add: ex_state_def)
  have tot: "total_rx ex_env_up = 5000" "total_tx ex_env_up = 800"
    by (simp_all add: total_rx_def total_tx_def ex_env_up_def)
  have srx: "sorted (rx_bytes (g_stats ex_state) # map total_rx (reported ex_events))"
    unfolding rx st by simp
  have stx: "sorted (tx_bytes (g_stats ex_state) # map total_tx (reported ex_events))"
    unfolding tx st by simp
  show ?thesis
    using counters_follow_reported_totals [OF ex_state_initialized nl srx stx, of ex_env_up]
      ex_state_initialized
    by (simp add: rx tx st tot)
qed

subsection \<open>Lock timeout\<close>

text \<open>
  C5. When the semaphore is not obtained within the timeout, the update tick returns
  with the whole module state as it was (statistics, client table and baselines alike),
  and so do the two resets; a reader leaves the caller's buffer as it found it. Nothing
  is reported to the caller: the writers return nothing and the client reader returns
  the count 0.
\<close>

theorem lock_timeout_changes_nothing:
  assumes "g_initialized s"
  shows "traffic_stats_update False env s = s
       \<and> traffic_stats_reset False now_us s = s
       \<and> traffic_stats_reset_peak False s = s
       \<and> traffic_stats_get False s (Some out) = Some out
       \<and> traffic_stats_get_clients False s (Some buf) max_clients = (0, Some buf)"
  using assms
  by (simp add: traffic_stats_update_def traffic_stats_reset_def traffic_stats_reset_peak_def
      traffic_stats_get_def traffic_stats_get_clients_def)

theorem lock_timeout_changes_nothing_witness:
  "g_initialized ex_state
   \<and> traffic_stats_update False ex_env ex_state = ex_state
   \<and> traffic_stats_get False ex_state (Some zero_stats) = Some zero_stats
   \<and> traffic_stats_get_clients False ex_state (Some [zero_client]) 1 = (0, Some [zero_client])
   \<and> traffic_stats_update True ex_env ex_state \<noteq> ex_state"
proof -
  have "rx_bytes (g_stats (traffic_stats_update True ex_env ex_state)) = 5000"
    by (simp add: traffic_stats_update_def ex_state_def ex_env_def Let_def)
  moreover have "rx_bytes (g_stats ex_state) = 3000"
    by (simp add: ex_state_def)
  ultimately have "traffic_stats_update True ex_env ex_state \<noteq> ex_state"
    by auto
  then show ?thesis
    using lock_timeout_changes_nothing
      [OF ex_state_initialized, of ex_env 0 zero_stats "[zero_client]" 1]
      ex_state_initialized
    by simp
qed

subsection \<open>Reset\<close>

text \<open>
  C7. A reset that obtains the lock zeroes the byte counters, the speeds and the peaks,
  stamps \<^verbatim>\<open>g_start_time\<close> with the current time in milliseconds, and leaves the client
  table, record for record, as it was.
\<close>

theorem reset_zeroes_counters_keeps_clients:
  assumes "g_initialized s"
  shows "rx_bytes (g_stats (traffic_stats_reset True now_us s)) = 0
       \<and> tx_bytes (g_stats (traffic_stats_reset True now_us s)) = 0
       \<and> rx_speed (g_stats (traffic_stats_reset True now_us s)) = 0
       \<and> tx_speed (g_stats (traffic_stats_reset True now_us s)) = 0
       \<and> peak_rx_speed (g_stats (traffic_stats_reset True now_us s)) = 0
       \<and> peak_tx_speed (g_stats (traffic_stats_reset True now_us s)) = 0
       \<and> g_start_time (traffic_stats_reset True now_us s) = get_time_ms now_us
       \<and> g_clients (traffic_stats_reset True now_us s) = g_clients s"
  using assms by (simp add: traffic_stats_reset_def zero_stats_def)

theorem reset_zeroes_counters_keeps_clients_witness:
  "g_initialized ex_state
   \<and> rx_bytes (g_stats ex_state) = 3000
   \<and> rx_bytes (g_stats (traffic_stats_reset True 5000000 ex_state)) = 0
   \<and> peak_rx_speed (g_stats (traffic_stats_reset True 5000000 ex_state)) = 0
   \<and> g_start_time (traffic_stats_reset True 5000000 ex_state) = 5000
   \<and> g_clients (traffic_stats_reset True 5000000 ex_state) = ex_client # replicate 15 zero_client"
proof -
  have "get_time_ms 5000000 = 5000"
    by (simp add: get_time_ms_nonneg)
  moreover have "g_clients ex_state = ex_client # replicate 15 zero_client"
    and "rx_bytes (g_stats ex_state) = 3000"
    by (simp_all add: ex_state_def)
  ultimately show ?thesis
    using reset_zeroes_counters_keeps_clients [OF ex_state_initialized, of 5000000]
      ex_state_initialized
    by simp
qed

subsection \<open>Reading the client table\<close>

text \<open>
  C8. For every table and every \<^verbatim>\<open>max_clients\<close> (the caller's array having room for
  that many records), the records \<^verbatim>\<open>traffic_stats_get_clients\<close> hands back are the
  active records of the table in table order, cut after \<^verbatim>\<open>max_clients\<close> of them (none
  when the module is not running or the lock is not obtained); the returned count is
  their number, at most \<^verbatim>\<open>max_clients\<close>, and each of them is active.
\<close>

theorem get_clients_active_prefix:
  assumes "max_clients \<le> int (length buf)"
  shows "(let r = traffic_stats_get_clients took s (Some buf) max_clients in
          returned_clients r =
            (if g_initialized s \<and> took
             then take (nat max_clients) (filter active (g_clients s)) else [])
        \<and> fst r = int (length (returned_clients r))
        \<and> length (returned_clients r) \<le> nat max_clients
        \<and> list_all active (returned_clients r))"
proof -
  have m: "nat max_clients \<le> length buf" using assms by simp
  have la: "list_all active (take n (filter active cs))" for n cs
    by (auto simp: list_all_iff dest: in_set_takeD)
  show ?thesis
    unfolding Let_def get_clients_returned(1) [OF m]
    using get_clients_returned(2) [OF m, of took s] la [of "nat max_clients" "g_clients s"]
    by (simp add: get_clients_returned(1) [OF m])
qed

theorem get_clients_active_prefix_witness:
  "(2::int) \<le> int (length (replicate 3 zero_client))
   \<and> map mac (filter active (g_clients ex_table_state)) =
       [(170, 187, 204, 221, 238, 1), (170, 187, 204, 221, 238, 2), (170, 187, 204, 221, 238, 3)]
   \<and> traffic_stats_get_clients True ex_table_state (Some (replicate 3 zero_client)) 2 =
       (2, Some [ex_client, new_client 2000 ex_sta, zero_client])
   \<and> returned_clients
        (traffic_stats_get_clients True ex_table_state (Some (replicate 3 zero_client)) 2) =
       [ex_client, new_client 2000 ex_sta]"
proof -
  have h: "(2::int) \<le> int (length (replicate 3 zero_client))"
    by simp
  have f: "take 2 (filter active (g_clients ex_table_state)) =
      [ex_client, new_client 2000 ex_sta]"
    by code_simp
  have i: "g_initialized ex_table_state"
    by (simp add: ex_table_state_def ex_state_def)
  have m: "map mac (filter active (g_clients ex_table_state)) =
       [(170, 187, 204, 221, 238, 1), (170, 187, 204, 221, 238, 2), (170, 187, 204, 221, 238, 3)]"
    by code_simp
  have g: "traffic_stats_get_clients True ex_table_state (Some (replicate 3 zero_client)) 2 =
       (2, Some [ex_client, new_client 2000 ex_sta, zero_client])"
    by code_simp
  have "returned_clients
        (traffic_stats_get_clients True ex_table_state (Some (replicate 3 zero_client)) 2) =
      take 2 (filter active (g_clients ex_table_state))"
    using get_clients_active_prefix [OF h, of True ex_table_state] i
    by (simp add: Let_def)
  then show ?thesis
    using h m g f by simp
qed

subsection \<open>Calls outside the initialised lifetime\<close>

text \<open>
  C10. While \<^verbatim>\<open>g_initialized\<close> is false (at program start, after a failed
  initialisation, after deinitialisation) no entry point touches the module state:
  \<^verbatim>\<open>traffic_stats_get\<close> zero-fills a buffer it is given and accepts a NULL pointer,
  \<^verbatim>\<open>traffic_stats_get_clients\<close> returns 0 and leaves the array alone, and the update
  and the two resets return the state unchanged. \<^verbatim>\<open>traffic_stats_get_clients\<close> also
  returns 0 in any state when the array is NULL or \<^verbatim>\<open>max_clients\<close> is not positive.
\<close>

theorem uninitialized_entry_points_do_nothing:
  assumes "\<not> g_initialized s"
  shows "traffic_stats_get took s (Some out) = Some zero_stats
       \<and> traffic_stats_get took s None = None
       \<and> traffic_stats_get_clients took s clients max_clients = (0, clients)
       \<and> traffic_stats_get_clients took s' None max_clients = (0, None)
       \<and> (max_clients \<le> 0 \<longrightarrow> traffic_stats_get_clients took s' clients max_clients = (0, clients))
       \<and> traffic_stats_update took env s = s
       \<and> traffic_stats_reset took now_us s = s
       \<and> traffic_stats_reset_peak took s = s"
  using assms
  by (simp add: traffic_stats_update_def traffic_stats_reset_def traffic_stats_reset_peak_def
      traffic_stats_get_def traffic_stats_get_clients_def split: option.split)

theorem uninitialized_entry_points_do_nothing_witness:
  "\<not> g_initialized (traffic_stats_deinit ex_state)
   \<and> traffic_stats_get True (traffic_stats_deinit ex_state) (Some (g_stats ex_state))
       = Some zero_stats
   \<and> traffic_stats_get_clients True (traffic_stats_deinit ex_state) (Some [zero_client]) 1
       = (0, Some [zero_client])
   \<and> (- 1 \<le> (0::int) \<and> traffic_stats_get_clients True ex_state (Some [zero_client]) (- 1)
       = (0, Some [zero_client]))
   \<and> traffic_stats_update True ex_env (traffic_stats_deinit ex_state)
       = traffic_stats_deinit ex_state
   \<and> traffic_stats_reset True 0 (traffic_stats_deinit ex_state) = traffic_stats_deinit ex_state
   \<and> traffic_stats_reset_peak True (traffic_stats_deinit ex_state)
       = traffic_stats_deinit ex_state"
  using uninitialized_entry_points_do_nothing
    [OF not_initialized_deinit, of True ex_state "g_stats ex_state" "Some [zero_client]"
      "- 1" ex_state ex_env 0]
    uninitialized_entry_points_do_nothing
    [OF not_initialized_deinit, of True ex_state "g_stats ex_state" "Some [zero_client]"
      1 ex_state ex_env 0]
    not_initialized_deinit [of ex_state]
  by simp

end
